theory Spec2Isabelle
  imports Main
begin

section \<open>Python values, errors and containers\<close>

text \<open>
  The reader of \<^verbatim>\<open>src/pbcore/io/BasH5Reader.py\<close> is embedded function by function.
  Every \<^verbatim>\<open>raise\<close> of the source, and every exception raised by a dictionary or
  sequence lookup it performs, is a value \<open>Inl e\<close> of the result type.
\<close>

datatype py_error = KeyError | IndexError | TypeError | ValueError | AttributeError

text \<open>
  Indexing a Python list or a one-dimensional numpy array with an integer: a negative
  index counts from the end, an index out of range raises \<^verbatim>\<open>IndexError\<close>.
\<close>

definition py_getitem :: "'a list \<Rightarrow> int \<Rightarrow> py_error + 'a" where
  "py_getitem xs i =
     (let n = int (length xs); j = (if i < 0 then i + n else i)
      in if 0 \<le> j \<and> j < n then Inr (xs ! nat j) else Inl IndexError)"

text \<open>The slice \<^verbatim>\<open>xs[a:b]\<close> for non-negative bounds; it never raises.\<close>

definition py_slice :: "'a list \<Rightarrow> nat \<Rightarrow> nat \<Rightarrow> 'a list" where
  "py_slice xs a b = drop a (take b xs)"

text \<open>\<^verbatim>\<open>dict(pairs)\<close>: pairs are stored from left to right, a later key overwrites.\<close>

definition dict :: "('k \<times> 'v) list \<Rightarrow> ('k \<rightharpoonup> 'v)" where
  "dict kvs = fold (\<lambda>(k, v) m. m(k \<mapsto> v)) kvs Map.empty"

text \<open>A list comprehension over a call that may raise stops at the first exception.\<close>

fun mapM :: "('a \<Rightarrow> py_error + 'b) \<Rightarrow> 'a list \<Rightarrow> py_error + 'b list" where
  "mapM f [] = Inr []"
| "mapM f (x # xs) =
     (case f x of
        Inl e \<Rightarrow> Inl e
      | Inr y \<Rightarrow> (case mapM f xs of Inl e \<Rightarrow> Inl e | Inr ys \<Rightarrow> Inr (y # ys)))"

section \<open>Interval helpers\<close>


definition rangeLength :: "int \<times> int \<Rightarrow> int" where
  "rangeLength r = (case r of (b, e) \<Rightarrow> e - b)"


section \<open>Constants and the region table\<close>

definition SEQUENCING_ZMW :: int where "SEQUENCING_ZMW = 0"

definition ADAPTER_REGION :: int where "ADAPTER_REGION = 0"
definition INSERT_REGION :: int where "INSERT_REGION = 1"
definition HQ_REGION :: int where "HQ_REGION = 2"

text \<open>
  A row of \<^verbatim>\<open>REGION_TABLE_DTYPE\<close>. The five columns are \<^verbatim>\<open>np.int32\<close>; the reader only
  compares them and takes differences of hole numbers, so they are integers here and
  the one subtraction (\<^verbatim>\<open>np.ediff1d\<close>) wraps explicitly.
\<close>

record region_row =
  holeNumber :: int
  regionType :: int
  regionStart :: int
  regionEnd :: int
  regionScore :: int

section \<open>Index builders\<close>

subsection \<open>Offsets: \<^verbatim>\<open>_makeOffsetsDataStructure\<close>\<close>

text \<open>The value of a two's complement result that is \<open>bits\<close> wide.\<close>

definition wrap_int :: "nat \<Rightarrow> int \<Rightarrow> int" where
  "wrap_int bits x = (x + 2 ^ (bits - 1)) mod 2 ^ bits - 2 ^ (bits - 1)"

text \<open>
  \<^verbatim>\<open>np.cumsum\<close>: running totals. The accumulator is a signed integer of fixed width
  and wraps around: the platform integer (64 bits, or 32 where the C \<^verbatim>\<open>long\<close> has 32),
  or the integer type of the array when that is wider. The width is the parameter
  \<open>bits\<close>, which the builder passes on.
\<close>

fun cumsum_from :: "nat \<Rightarrow> int \<Rightarrow> int list \<Rightarrow> int list" where
  "cumsum_from bits acc [] = []"
| "cumsum_from bits acc (x # xs) =
     wrap_int bits (acc + x) # cumsum_from bits (wrap_int bits (acc + x)) xs"

definition cumsum :: "nat \<Rightarrow> int list \<Rightarrow> int list" where
  "cumsum bits xs = cumsum_from bits 0 xs"

definition makeOffsetsDataStructure ::
  "nat \<Rightarrow> int list \<Rightarrow> int list \<Rightarrow> (int \<rightharpoonup> int \<times> int)" where
  "makeOffsetsDataStructure bits numEvent holeNumbers =
     (let endOffset = cumsum bits numEvent;
          beginOffset = [0] @ butlast endOffset;
          offsets = zip beginOffset endOffset
      in dict (zip holeNumbers offsets))"

subsection \<open>Region rows: \<^verbatim>\<open>_makeRegionTableIndex\<close>\<close>

text \<open>The value of a 32-bit two's complement result.\<close>

definition int32 :: "int \<Rightarrow> int" where
  "int32 x = (x + 2147483648) mod 4294967296 - 2147483648"

definition in_int32 :: "int \<Rightarrow> bool" where
  "in_int32 x = (- 2147483648 \<le> x \<and> x < 2147483648)"

text \<open>\<^verbatim>\<open>ary[1:] - ary[:-1]\<close> on an \<^verbatim>\<open>int32\<close> array.\<close>

fun ediff :: "int list \<Rightarrow> int list" where
  "ediff (x # y # r) = int32 (y - x) # ediff (y # r)"
| "ediff _ = []"

definition ediff1d :: "int list \<Rightarrow> int list \<Rightarrow> int list \<Rightarrow> int list" where
  "ediff1d ary to_begin to_end = to_begin @ ediff ary @ to_end"

text \<open>\<^verbatim>\<open>np.flatnonzero\<close>: the positions of the non-zero entries, ascending.\<close>

fun nonzero_from :: "nat \<Rightarrow> int list \<Rightarrow> nat list" where
  "nonzero_from k [] = []"
| "nonzero_from k (d # ds) = (if d \<noteq> 0 then [k] else []) @ nonzero_from (Suc k) ds"

definition flatnonzero :: "int list \<Rightarrow> nat list" where
  "flatnonzero ds = nonzero_from 0 ds"

text \<open>\<^verbatim>\<open>np.unique\<close>: the distinct values, sorted ascending.\<close>

definition unique :: "int list \<Rightarrow> int list" where
  "unique xs = sort (remdups xs)"

definition makeRegionTableIndex :: "int list \<Rightarrow> (int \<rightharpoonup> nat \<times> nat)" where
  "makeRegionTableIndex regionTableHoleNumbers =
     (let diffs = ediff1d regionTableHoleNumbers [1] [1];
          changepoints = flatnonzero diffs;
          startsAndEnds = zip (butlast changepoints) (tl changepoints)
      in dict (zip (unique regionTableHoleNumbers) startsAndEnds))"

section \<open>The single-part reader and its channel view\<close>

text \<open>
  The attributes of a \<^verbatim>\<open>BaxH5Reader\<close> that the channel and read views consult, as
  \<^verbatim>\<open>__init__\<close> leaves them. \<^verbatim>\<open>_offsetsByHole\<close> exists only when \<open>hasRawBasecalls\<close>
  holds and \<^verbatim>\<open>_ccsOffsetsByHole\<close> only when \<open>hasConsensusBasecalls\<close> holds. The
  metric cache, the reader's one mutable attribute, is threaded separately below.
\<close>

record BaxH5Reader =
  hasRawBasecalls :: bool
  hasConsensusBasecalls :: bool
  offsetsByHole :: "int \<rightharpoonup> int \<times> int"
  ccsOffsetsByHole :: "int \<rightharpoonup> int \<times> int"
  holeNumberToIndex :: "int \<rightharpoonup> nat"
  regionTable :: "region_row list"
  regionTableIndex :: "int \<rightharpoonup> nat \<times> nat"
  sequencingZmws :: "int list"

record Zmw =
  baxH5 :: BaxH5Reader
  zmw_holeNumber :: int
  zmw_index :: nat

text \<open>\<^verbatim>\<open>Zmw.__init__\<close>, reached through \<^verbatim>\<open>BaxH5Reader.__getitem__\<close>.\<close>

definition Zmw_init :: "BaxH5Reader \<Rightarrow> int \<Rightarrow> py_error + Zmw" where
  "Zmw_init b h =
     (case holeNumberToIndex b h of
        None \<Rightarrow> Inl KeyError
      | Some i \<Rightarrow> Inr \<lparr>baxH5 = b, zmw_holeNumber = h, zmw_index = i\<rparr>)"

definition BaxH5Reader_getitem :: "BaxH5Reader \<Rightarrow> int \<Rightarrow> py_error + Zmw" where
  "BaxH5Reader_getitem b h = Zmw_init b h"

definition Zmw_regionTable :: "Zmw \<Rightarrow> py_error + region_row list" where
  "Zmw_regionTable z =
     (case regionTableIndex (baxH5 z) (zmw_holeNumber z) of
        None \<Rightarrow> Inl KeyError
      | Some (startRow, endRow) \<Rightarrow> Inr (py_slice (regionTable (baxH5 z)) startRow endRow))"

definition Zmw_hqRegion :: "Zmw \<Rightarrow> py_error + int \<times> int" where
  "Zmw_hqRegion z =
     (case Zmw_regionTable z of
        Inl e \<Rightarrow> Inl e
      | Inr rt \<Rightarrow>
          (let hqRows = filter (\<lambda>r. regionType r = HQ_REGION) rt
           in if length hqRows = 1
              then (let hqRow = hqRows ! 0 in Inr (regionStart hqRow, regionEnd hqRow))
              else Inr (0, 0)))"



section \<open>Read views\<close>

text \<open>
  \<^verbatim>\<open>ZmwRead\<close> and its subclass \<^verbatim>\<open>CCSZmwRead\<close> share \<^verbatim>\<open>__init__\<close>; they differ in
  \<^verbatim>\<open>_getOffsets\<close>, which the class tag selects.
\<close>

datatype read_class = ZmwReadClass | CCSZmwReadClass

record ZmwRead =
  read_class :: read_class
  read_baxH5 :: BaxH5Reader
  read_holeNumber :: int
  readStart :: int
  readEnd :: int
  offsetBegin :: int
  offsetEnd :: int

definition getOffsets :: "read_class \<Rightarrow> BaxH5Reader \<Rightarrow> py_error + (int \<rightharpoonup> int \<times> int)" where
  "getOffsets c b =
     (case c of
        ZmwReadClass \<Rightarrow> (if hasRawBasecalls b then Inr (offsetsByHole b) else Inl AttributeError)
      | CCSZmwReadClass \<Rightarrow>
          (if hasConsensusBasecalls b then Inr (ccsOffsetsByHole b) else Inl AttributeError))"

definition ZmwRead_init ::
  "read_class \<Rightarrow> BaxH5Reader \<Rightarrow> int \<Rightarrow> int \<Rightarrow> int \<Rightarrow> py_error + ZmwRead" where
  "ZmwRead_init c b h rs re =
     (case getOffsets c b of
        Inl e \<Rightarrow> Inl e
      | Inr offsets \<Rightarrow>
          (case offsets h of
             None \<Rightarrow> Inl KeyError
           | Some (zmwOffsetBegin, zmwOffsetEnd) \<Rightarrow>
               (let ob = zmwOffsetBegin + rs; oe = zmwOffsetBegin + re
                in if \<not> (zmwOffsetBegin \<le> ob \<and> ob \<le> oe \<and> oe \<le> zmwOffsetEnd)
                   then Inl IndexError
                   else Inr \<lparr>read_class = c, read_baxH5 = b, read_holeNumber = h,
                              readStart = rs, readEnd = re,
                              offsetBegin = ob, offsetEnd = oe\<rparr>)))"

definition ZmwRead_len :: "ZmwRead \<Rightarrow> int" where
  "ZmwRead_len r = readEnd r - readStart r"

text \<open>\<^verbatim>\<open>Zmw.read\<close>: absent bounds default to the high-quality interval.\<close>

definition Zmw_read :: "Zmw \<Rightarrow> int option \<Rightarrow> int option \<Rightarrow> py_error + ZmwRead" where
  "Zmw_read z readStart' readEnd' =
     (if \<not> hasRawBasecalls (baxH5 z) then Inl ValueError
      else case Zmw_hqRegion z of
             Inl e \<Rightarrow> Inl e
           | Inr (hqStart, hqEnd) \<Rightarrow>
               ZmwRead_init ZmwReadClass (baxH5 z) (zmw_holeNumber z)
                 (case readStart' of None \<Rightarrow> hqStart | Some s \<Rightarrow> s)
                 (case readEnd' of None \<Rightarrow> hqEnd | Some e \<Rightarrow> e))"

section \<open>The metric cache: \<^verbatim>\<open>BaxH5Reader.zmwMetric\<close>\<close>

text \<open>
  A numpy array is its shape and its entries in row-major order; the entries stay
  abstract. \<^verbatim>\<open>v[index,]\<close> selects along the first axis and yields the remaining
  sub-array; \<^verbatim>\<open>v[index]\<close> on a one-dimensional array yields an entry.
\<close>

datatype 'v ndarray = NDArray (shape: "nat list") (flat: "'v list")

datatype 'v metric_value = Scalar 'v | SubArray "'v ndarray"

definition first_axis_index :: "'v ndarray \<Rightarrow> int \<Rightarrow> py_error + nat" where
  "first_axis_index v i =
     (case shape v of
        [] \<Rightarrow> Inl IndexError
      | n0 # _ \<Rightarrow>
          (let j = (if i < 0 then i + int n0 else i)
           in if 0 \<le> j \<and> j < int n0 then Inr (nat j) else Inl IndexError))"

definition index_row :: "'v ndarray \<Rightarrow> int \<Rightarrow> py_error + 'v metric_value" where
  "index_row v i =
     (case first_axis_index v i of
        Inl e \<Rightarrow> Inl e
      | Inr j \<Rightarrow>
          (let rest = tl (shape v); stride = prod_list rest
           in Inr (SubArray (NDArray rest (take stride (drop (j * stride) (flat v)))))))"

definition index_entry :: "'v ndarray \<Rightarrow> int \<Rightarrow> py_error + 'v metric_value" where
  "index_entry v i =
     (case first_axis_index v i of
        Inl e \<Rightarrow> Inl e
      | Inr j \<Rightarrow> Inr (Scalar (flat v ! j)))"

text \<open>
  The state the method mutates: the cache, and a log of the keys whose \<^verbatim>\<open>.value\<close> was
  read from \<^verbatim>\<open>_mainBasecallsGroup\<close> (the instrumentation of the backing store).
\<close>

record 'v metric_state =
  metricCache :: "string \<rightharpoonup> 'v ndarray"
  reads :: "string list"

definition zmwMetric ::
  "(string \<rightharpoonup> 'v ndarray) \<Rightarrow> 'v metric_state \<Rightarrow> string \<Rightarrow> int
     \<Rightarrow> (py_error + 'v metric_value) \<times> 'v metric_state" where
  "zmwMetric mainBasecallsGroup s name index =
     (case (if metricCache s name = None
            then (let k = ''ZMWMetrics'' @ ''/'' @ name
                  in case mainBasecallsGroup k of
                       None \<Rightarrow> Inl KeyError
                     | Some a \<Rightarrow>
                         Inr (s\<lparr>metricCache := (metricCache s)(name \<mapsto> a),
                                 reads := reads s @ [k]\<rparr>))
            else Inr s) of
        Inl e \<Rightarrow> (Inl e, s)
      | Inr s' \<Rightarrow>
          (case metricCache s' name of
             None \<Rightarrow> (Inl KeyError, s')
           | Some v \<Rightarrow>
               (if length (shape v) > 1 then index_row v index else index_entry v index, s')))"

text \<open>The un-cached lookup: read the named array and index it.\<close>

definition direct_metric ::
  "(string \<rightharpoonup> 'v ndarray) \<Rightarrow> string \<Rightarrow> int \<Rightarrow> py_error + 'v metric_value" where
  "direct_metric mainBasecallsGroup name index =
     (case mainBasecallsGroup (''ZMWMetrics'' @ ''/'' @ name) of
        None \<Rightarrow> Inl KeyError
      | Some v \<Rightarrow> (if length (shape v) > 1 then index_row v index else index_entry v index))"

text \<open>A sequence of calls on one reader instance, the state threaded through.\<close>

fun zmwMetric_calls ::
  "(string \<rightharpoonup> 'v ndarray) \<Rightarrow> 'v metric_state \<Rightarrow> (string \<times> int) list
     \<Rightarrow> (py_error + 'v metric_value) list \<times> 'v metric_state" where
  "zmwMetric_calls g s [] = ([], s)"
| "zmwMetric_calls g s ((name, index) # cs) =
     (let (r, s') = zmwMetric g s name index;
          (rs, s'') = zmwMetric_calls g s' cs
      in (r # rs, s''))"

definition fresh_cache :: "'v metric_state" where
  "fresh_cache = \<lparr>metricCache = Map.empty, reads = []\<rparr>"

section \<open>The partitioned reader: \<^verbatim>\<open>BasH5Reader\<close>\<close>

text \<open>
  What \<^verbatim>\<open>BasH5Reader.__init__\<close> finds in the file: the \<^verbatim>\<open>MultiPart\<close> group when the
  file declares one (its parts, opened as single-part readers, and column 1 of
  \<^verbatim>\<open>HoleLookup\<close>), and the file itself opened as a single-part reader.
\<close>

record bas_file =
  MultiPart :: "(BaxH5Reader list \<times> int list) option"
  selfPart :: BaxH5Reader

record BasH5Reader =
  parts :: "BaxH5Reader list"
  holeLookupVector :: "int list option"
  bas_sequencingZmws :: "int list"

text \<open>\<^verbatim>\<open>np.concatenate\<close> raises \<^verbatim>\<open>ValueError\<close> on an empty list of arrays.\<close>

definition np_concatenate :: "'a list list \<Rightarrow> py_error + 'a list" where
  "np_concatenate xss = (if xss = [] then Inl ValueError else Inr (concat xss))"

definition BasH5Reader_init :: "bas_file \<Rightarrow> py_error + BasH5Reader" where
  "BasH5Reader_init f =
     (let (ps, lv) = (case MultiPart f of
                        Some (ps, v) \<Rightarrow> (ps, Some v)
                      | None \<Rightarrow> ([selfPart f], None))
      in case np_concatenate (map sequencingZmws ps) of
           Inl e \<Rightarrow> Inl e
         | Inr zs \<Rightarrow> Inr \<lparr>parts = ps, holeLookupVector = lv, bas_sequencingZmws = zs\<rparr>)"

text \<open>
  \<^verbatim>\<open>_holeLookup\<close>: indexing into the routing vector for a multi-part file, the
  constant 1 otherwise.
\<close>

definition holeLookup :: "BasH5Reader \<Rightarrow> int \<Rightarrow> py_error + int" where
  "holeLookup rdr h =
     (case holeLookupVector rdr of
        Some v \<Rightarrow> py_getitem v h
      | None \<Rightarrow> Inr 1)"

definition getitemScalar :: "BasH5Reader \<Rightarrow> int \<Rightarrow> py_error + Zmw" where
  "getitemScalar rdr h =
     (case holeLookup rdr h of
        Inl e \<Rightarrow> Inl e
      | Inr k \<Rightarrow>
          (case py_getitem (parts rdr) (k - 1) of
             Inl e \<Rightarrow> Inl e
           | Inr part \<Rightarrow> BaxH5Reader_getitem part h))"

definition BasH5Reader_len :: "BasH5Reader \<Rightarrow> nat" where
  "BasH5Reader_len rdr = length (bas_sequencingZmws rdr)"

text \<open>
  \<^verbatim>\<open>slice.indices(len)\<close> and \<^verbatim>\<open>xrange(start, stop, step)\<close> of the Python runtime.
\<close>

definition slice_indices ::
  "int option \<Rightarrow> int option \<Rightarrow> int option \<Rightarrow> nat \<Rightarrow> py_error + int \<times> int \<times> int" where
  "slice_indices start stop step len =
     (let st = (case step of None \<Rightarrow> 1 | Some s \<Rightarrow> s);
          n = int len;
          lower = (if st < 0 then - 1 else 0);
          upper = (if st < 0 then n - 1 else n);
          clip = (\<lambda>i. if i < 0 then max (i + n) lower else min i upper);
          a = (case start of None \<Rightarrow> (if st < 0 then upper else lower) | Some i \<Rightarrow> clip i);
          b = (case stop of None \<Rightarrow> (if st < 0 then lower else upper) | Some i \<Rightarrow> clip i)
      in if st = 0 then Inl ValueError else Inr (a, b, st))"

definition xrange :: "int \<Rightarrow> int \<Rightarrow> int \<Rightarrow> int list" where
  "xrange a b st =
     (let n = (if st > 0 then nat ((b - a + st - 1) div st)
               else nat ((a - b - st - 1) div (- st)))
      in map (\<lambda>i. a + int i * st) [0..<n])"

text \<open>
  The argument of \<^verbatim>\<open>BasH5Reader.__getitem__\<close>. A list or array is taken by the type of
  its entries, which the method reads off the first one: integers, booleans, or
  anything else (only its length matters then). \<open>OtherKey\<close> is a value that is no
  integer, slice, list or array.
\<close>

datatype seq = IntSeq "int list" | BoolSeq "bool list" | OtherSeq nat

datatype key =
  IntKey int
| SliceKey "int option" "int option" "int option"
| SeqKey seq
| OtherKey

datatype lookup_result = One Zmw | Many "Zmw list"

fun seq_len :: "seq \<Rightarrow> nat" where
  "seq_len (IntSeq xs) = length xs"
| "seq_len (BoolSeq bs) = length bs"
| "seq_len (OtherSeq n) = n"

text \<open>
  The comprehension \<^verbatim>\<open>[ self._getitemScalar(r) for r in ... ]\<close> that the slice, integer
  list and boolean list branches share. A Python \<^verbatim>\<open>bool\<close> passed on its own is an
  \<^verbatim>\<open>int\<close> (\<open>IntKey 0\<close> or \<open>IntKey 1\<close>).
\<close>

definition many :: "BasH5Reader \<Rightarrow> int list \<Rightarrow> py_error + lookup_result" where
  "many rdr hs = (case mapM (getitemScalar rdr) hs of Inl e \<Rightarrow> Inl e | Inr zs \<Rightarrow> Inr (Many zs))"

definition BasH5Reader_getitem :: "BasH5Reader \<Rightarrow> key \<Rightarrow> py_error + lookup_result" where
  "BasH5Reader_getitem rdr holeNumbers =
     (case holeNumbers of
        IntKey h \<Rightarrow> (case getitemScalar rdr h of Inl e \<Rightarrow> Inl e | Inr z \<Rightarrow> Inr (One z))
      | SliceKey start stop step \<Rightarrow>
          (case slice_indices start stop step (BasH5Reader_len rdr) of
             Inl e \<Rightarrow> Inl e
           | Inr (a, b, st) \<Rightarrow> many rdr (xrange a b st))
      | SeqKey s \<Rightarrow>
          (if seq_len s = 0 then Inr (Many [])
           else (case s of
                   IntSeq hs \<Rightarrow> many rdr hs
                 | BoolSeq bs \<Rightarrow>
                     many rdr (map int (flatnonzero (map (\<lambda>b. if b then 1 else 0) bs)))
                 | OtherSeq n \<Rightarrow> Inl TypeError))
      | OtherKey \<Rightarrow> Inl TypeError)"

section \<open>Notions used to state the properties\<close>

text \<open>
  A table is contiguous when the rows of each hole number form one run: collapsing
  adjacent repetitions leaves no hole number twice.
\<close>

definition contiguous :: "int list \<Rightarrow> bool" where
  "contiguous hs = distinct (remdups_adj hs)"

text \<open>
  The changepoints of a non-empty hole-number column whose first row has position \<open>k\<close>:
  the synthetic boundary \<open>k\<close>, the positions where the value changes, and the synthetic
  boundary after the last row.
\<close>

definition changepoints_at :: "nat \<Rightarrow> int list \<Rightarrow> nat list" where
  "changepoints_at k hs = k # nonzero_from (Suc k) (ediff hs) @ [k + length hs]"

definition pairs :: "nat list \<Rightarrow> (nat \<times> nat) list" where
  "pairs cps = zip (butlast cps) (tl cps)"

text \<open>
  \<open>seg k hs zs\<close>: the triples \<open>(h, s, e)\<close> of \<open>zs\<close> cut the rows \<open>hs\<close>, the first of
  which has position \<open>k\<close>, into consecutive non-empty ranges \<open>[s, e)\<close> whose rows all
  carry \<open>h\<close>.
\<close>

fun seg :: "nat \<Rightarrow> int list \<Rightarrow> (int \<times> nat \<times> nat) list \<Rightarrow> bool" where
  "seg k hs [] = (hs = [])"
| "seg k hs ((h, s, e) # zs) =
     (s = k \<and> s < e \<and> e - s \<le> length hs \<and> take (e - s) hs = replicate (e - s) h \<and>
      seg e (drop (e - s) hs) zs)"

definition zipped :: "nat \<Rightarrow> int list \<Rightarrow> (int \<times> nat \<times> nat) list" where
  "zipped k hs = zip (remdups_adj hs) (pairs (changepoints_at k hs))"


text \<open>
  A cache state is consistent with the backing group when every cached array is the
  stored one, no key was read twice, and the keys read are those of the cached names.
\<close>

definition cache_consistent :: "(string \<rightharpoonup> 'v ndarray) \<Rightarrow> 'v metric_state \<Rightarrow> bool" where
  "cache_consistent g s =
     ((\<forall>n a. metricCache s n = Some a \<longrightarrow> g (''ZMWMetrics'' @ ''/'' @ n) = Some a) \<and>
      distinct (reads s) \<and>
      set (reads s) = (\<lambda>n. ''ZMWMetrics'' @ ''/'' @ n) ` dom (metricCache s))"

section \<open>Example readers\<close>

text \<open>
  A single-part file with two holes. Hole 8 has five annotation rows (the scenario of
  the specification, plus two adapter rows); hole 0 has none.
\<close>

definition ex_rows :: "region_row list" where
  "ex_rows =
     [\<lparr>holeNumber = 8, regionType = ADAPTER_REGION, regionStart = 0, regionEnd = 30, regionScore = 0\<rparr>,
      \<lparr>holeNumber = 8, regionType = INSERT_REGION, regionStart = 40, regionEnd = 500, regionScore = 0\<rparr>,
      \<lparr>holeNumber = 8, regionType = ADAPTER_REGION, regionStart = 495, regionEnd = 505, regionScore = 0\<rparr>,
      \<lparr>holeNumber = 8, regionType = INSERT_REGION, regionStart = 500, regionEnd = 960, regionScore = 0\<rparr>,
      \<lparr>holeNumber = 8, regionType = HQ_REGION, regionStart = 50, regionEnd = 950, regionScore = 800\<rparr>]"

definition ex_bax :: BaxH5Reader where
  "ex_bax =
     \<lparr>hasRawBasecalls = True, hasConsensusBasecalls = False,
      offsetsByHole = makeOffsetsDataStructure 64 [0, 1000] [0, 8],
      ccsOffsetsByHole = Map.empty,
      holeNumberToIndex = dict (zip [0, 8] [0, 1]),
      regionTable = ex_rows,
      regionTableIndex = makeRegionTableIndex (map holeNumber ex_rows),
      sequencingZmws = [8]\<rparr>"

definition ex_zmw0 :: Zmw where
  "ex_zmw0 = \<lparr>baxH5 = ex_bax, zmw_holeNumber = 0, zmw_index = 0\<rparr>"

definition ex_zmw8 :: Zmw where
  "ex_zmw8 = \<lparr>baxH5 = ex_bax, zmw_holeNumber = 8, zmw_index = 1\<rparr>"

definition ex_bax_b :: BaxH5Reader where
  "ex_bax_b =
     \<lparr>hasRawBasecalls = True, hasConsensusBasecalls = False,
      offsetsByHole = makeOffsetsDataStructure 64 [0, 0] [2, 3],
      ccsOffsetsByHole = Map.empty,
      holeNumberToIndex = dict (zip [2, 3] [0, 1]),
      regionTable = [],
      regionTableIndex = makeRegionTableIndex [],
      sequencingZmws = []\<rparr>"

definition ex_single :: bas_file where
  "ex_single = \<lparr>MultiPart = None, selfPart = ex_bax\<rparr>"

definition ex_multi :: bas_file where
  "ex_multi = \<lparr>MultiPart = Some ([ex_bax, ex_bax_b], [1, 0, 2, 2, 0, 0, 0, 0, 1]), selfPart = ex_bax\<rparr>"

definition ex_bas :: BasH5Reader where
  "ex_bas = \<lparr>parts = [ex_bax], holeLookupVector = None, bas_sequencingZmws = [8]\<rparr>"

text \<open>
  A backing group with a one-dimensional and a two-dimensional metric, and a sequence
  of calls on one reader.
\<close>

definition ex_metrics :: "string \<rightharpoonup> int ndarray" where
  "ex_metrics =
     [''ZMWMetrics/ReadScore'' \<mapsto> NDArray [2] [80, 90],
      ''ZMWMetrics/HQRegionSNR'' \<mapsto> NDArray [2, 4] [1, 2, 3, 4, 5, 6, 7, 8]]"

definition ex_calls :: "(string \<times> int) list" where
  "ex_calls = [(''ReadScore'', 0), (''ReadScore'', 1), (''HQRegionSNR'', 1), (''ReadScore'', 2)]"

section \<open>Evaluation and dictionary lemmas\<close>

lemmas builder_defs = makeRegionTableIndex_def makeOffsetsDataStructure_def ediff1d_def
  flatnonzero_def unique_def dict_def int32_def cumsum_def wrap_int_def


lemma dict_map_of: "dict kvs = map_of (rev kvs)"
proof -
  have "fold (\<lambda>(k, v) m. m(k \<mapsto> v)) kvs m = m ++ map_of (rev kvs)" for m :: "'a \<rightharpoonup> 'b"
    by (induction kvs arbitrary: m) (auto simp: map_add_upd_left fun_eq_iff map_add_def split: option.splits)
  then show ?thesis by (simp add: dict_def)
qed

lemma dict_distinct_Some:
  "distinct (map fst kvs) \<Longrightarrow> (dict kvs k = Some v) = ((k, v) \<in> set kvs)"
  by (simp add: dict_map_of rev_map [symmetric])

lemma dict_None: "(dict kvs k = None) = (k \<notin> fst ` set kvs)"
  by (simp add: dict_map_of map_of_eq_None_iff)

lemma int32_diff_zero:
  assumes "in_int32 x" and "in_int32 y"
  shows "(int32 (y - x) = 0) = (x = y)"
proof
  assume "int32 (y - x) = 0"
  then have "(y - x + 2147483648) mod 4294967296 = 2147483648 mod 4294967296"
    by (simp add: int32_def)
  then have "4294967296 dvd (y - x + 2147483648 - 2147483648)"
    by (simp only: mod_eq_dvd_iff)
  then have d: "4294967296 dvd (y - x)"
    by simp
  have b: "\<bar>y - x\<bar> < 4294967296"
    using assms unfolding in_int32_def by linarith
  have "y - x = 0"
  proof (rule ccontr)
    assume "y - x \<noteq> 0"
    then have "\<bar>4294967296 :: int\<bar> \<le> \<bar>y - x\<bar>"
      using d by (rule dvd_imp_le_int)
    with b show False by simp
  qed
  then show "x = y" by simp
next
  assume "x = y"
  then show "int32 (y - x) = 0" by (simp add: int32_def)
qed

lemma nonzero_from_snoc:
  "nonzero_from k (ds @ [1]) = nonzero_from k ds @ [k + length ds]"
  by (induction ds arbitrary: k) simp_all

lemma length_ediff: "length (ediff hs) = length hs - 1"
  by (induction hs rule: ediff.induct) simp_all

section \<open>Read views (C1)\<close>

text \<open>
  Claim C1. Let the offset table that the read's class selects hold \<open>(zb, ze)\<close> for
  the channel. Then construction raises \<^verbatim>\<open>IndexError\<close> exactly when the chain
  \<open>zb \<le> zb + readStart \<le> zb + readEnd \<le> ze\<close> is violated; when the chain holds a read
  is constructed with these absolute offsets; every constructed read lies within
  \<open>[zb, ze]\<close>, and its length is \<open>readEnd - readStart\<close>, which is not negative; in
  particular \<open>readStart > readEnd\<close>, a negative \<open>readStart\<close> and a \<open>readEnd\<close> beyond the
  channel's span fail with the range error.
\<close>

theorem ZmwRead_init_range:
  assumes "getOffsets c b = Inr offsets" and "offsets h = Some (zb, ze)"
  shows "(ZmwRead_init c b h rs re = Inl IndexError) =
           (\<not> (zb \<le> zb + rs \<and> zb + rs \<le> zb + re \<and> zb + re \<le> ze)) \<and>
         ((zb \<le> zb + rs \<and> zb + rs \<le> zb + re \<and> zb + re \<le> ze) \<longrightarrow>
            (\<exists>r. ZmwRead_init c b h rs re = Inr r \<and>
                 offsetBegin r = zb + rs \<and> offsetEnd r = zb + re \<and>
                 ZmwRead_len r = re - rs \<and> 0 \<le> ZmwRead_len r)) \<and>
         (\<forall>r. ZmwRead_init c b h rs re = Inr r \<longrightarrow>
            zb \<le> offsetBegin r \<and> offsetBegin r \<le> offsetEnd r \<and> offsetEnd r \<le> ze \<and>
            ZmwRead_len r = re - rs \<and> 0 \<le> ZmwRead_len r) \<and>
         (re < rs \<or> rs < 0 \<or> ze - zb < re \<longrightarrow> ZmwRead_init c b h rs re = Inl IndexError)"
  using assms by (auto simp: ZmwRead_init_def ZmwRead_len_def Let_def)

theorem ZmwRead_init_range_witness:
  "getOffsets ZmwReadClass ex_bax = Inr (offsetsByHole ex_bax) \<and>
   offsetsByHole ex_bax 8 = Some (0, 1000) \<and>
   (\<exists>r. ZmwRead_init ZmwReadClass ex_bax 8 50 950 = Inr r \<and> ZmwRead_len r = 900) \<and>
   ZmwRead_init ZmwReadClass ex_bax 8 950 50 = Inl IndexError \<and>
   ZmwRead_init ZmwReadClass ex_bax 8 50 1001 = Inl IndexError"
proof -
  have g: "getOffsets ZmwReadClass ex_bax = Inr (offsetsByHole ex_bax)"
    by (simp add: getOffsets_def ex_bax_def)
  have o: "offsetsByHole ex_bax 8 = Some (0, 1000)"
    by (simp add: ex_bax_def builder_defs)
  have 1: "\<exists>r. ZmwRead_init ZmwReadClass ex_bax 8 50 950 = Inr r \<and> ZmwRead_len r = 900"
    using ZmwRead_init_range [OF g o, of 50 950] by auto
  have 2: "ZmwRead_init ZmwReadClass ex_bax 8 950 50 = Inl IndexError"
    using ZmwRead_init_range [OF g o, of 950 50] by simp
  have 3: "ZmwRead_init ZmwReadClass ex_bax 8 50 1001 = Inl IndexError"
    using ZmwRead_init_range [OF g o, of 50 1001] by simp
  show ?thesis using g o 1 2 3 by simp
qed

section \<open>The offset index (C5)\<close>

lemma wrap_int_id:
  assumes "0 < bits" and "0 \<le> x" and "x < 2 ^ (bits - 1)"
  shows "wrap_int bits x = x"
proof -
  have p: "(2::int) ^ bits = 2 * 2 ^ (bits - 1)"
    using assms(1) by (cases bits) simp_all
  have "0 \<le> x + 2 ^ (bits - 1)"
    using assms(2) by simp
  moreover have "x + 2 ^ (bits - 1) < 2 ^ bits"
    using assms(3) p by simp
  ultimately have "(x + 2 ^ (bits - 1)) mod 2 ^ bits = x + 2 ^ (bits - 1)"
    by (rule mod_pos_pos_trivial)
  then show ?thesis by (simp add: wrap_int_def)
qed

lemma cumsum_from_nth:
  assumes "0 < bits"
  shows "\<forall>c\<in>set xs. 0 \<le> c \<Longrightarrow> 0 \<le> a \<Longrightarrow> a + sum_list xs < 2 ^ (bits - 1) \<Longrightarrow>
         i < length xs \<Longrightarrow> cumsum_from bits a xs ! i = a + sum_list (take (Suc i) xs)"
proof (induction xs arbitrary: a i)
  case Nil
  then show ?case by simp
next
  case (Cons x xs)
  have x0: "0 \<le> x" using Cons.prems(1) by simp
  have rest: "\<forall>c\<in>set xs. 0 \<le> c" using Cons.prems(1) by simp
  then have nn: "0 \<le> sum_list xs" by (intro sum_list_nonneg) simp
  have up: "a + x + sum_list xs < 2 ^ (bits - 1)" using Cons.prems(3) by simp
  have lo: "0 \<le> a + x" using Cons.prems(2) x0 by simp
  have hi: "a + x < 2 ^ (bits - 1)" using up nn by linarith
  have w: "wrap_int bits (a + x) = a + x"
    using assms lo hi by (rule wrap_int_id)
  show ?case
  proof (cases i)
    case 0
    then show ?thesis by (simp add: w)
  next
    case (Suc j)
    then have j: "j < length xs" using Cons.prems(4) by simp
    have "cumsum_from bits (a + x) xs ! j = a + x + sum_list (take (Suc j) xs)"
      using rest lo up j by (rule Cons.IH)
    then show ?thesis using Suc by (simp add: w)
  qed
qed

lemma length_cumsum_from: "length (cumsum_from bits a xs) = length xs"
  by (induction xs arbitrary: a) simp_all

lemma endOffset_nth:
  assumes "0 < bits" and "\<forall>c\<in>set xs. 0 \<le> c" and "sum_list xs < 2 ^ (bits - 1)"
    and "i < length xs"
  shows "cumsum bits xs ! i = sum_list (take (Suc i) xs)"
  using cumsum_from_nth [OF assms(1,2), of 0 i] assms(3,4) by (simp add: cumsum_def)

lemma beginOffset_nth:
  assumes "0 < bits" and "\<forall>c\<in>set xs. 0 \<le> c" and "sum_list xs < 2 ^ (bits - 1)"
    and "i < length xs"
  shows "([0] @ butlast (cumsum bits xs)) ! i = sum_list (take i xs)"
proof (cases i)
  case 0
  then show ?thesis by simp
next
  case (Suc j)
  with assms(4) have j: "j < length (butlast (cumsum bits xs))" "j < length xs"
    by (simp_all add: cumsum_def length_cumsum_from)
  have "cumsum bits xs ! j = sum_list (take (Suc j) xs)"
    using assms(1,2,3) j(2) by (rule endOffset_nth)
  then show ?thesis
    using Suc j by (simp add: nth_butlast)
qed

lemma offsets_lookup:
  assumes "0 < bits" and "\<forall>c\<in>set counts. 0 \<le> c" and "sum_list counts < 2 ^ (bits - 1)"
    and "distinct hs" and "length hs = length counts" and "i < length counts"
  shows "makeOffsetsDataStructure bits counts hs (hs ! i) =
           Some (sum_list (take i counts), sum_list (take (Suc i) counts))"
proof -
  let ?offs = "zip ([0] @ butlast (cumsum bits counts)) (cumsum bits counts)"
  have len: "length ?offs = length counts"
    by (simp add: cumsum_def length_cumsum_from)
  have nth: "?offs ! i = (sum_list (take i counts), sum_list (take (Suc i) counts))"
    using assms(6) beginOffset_nth [OF assms(1,2,3,6)] endOffset_nth [OF assms(1,2,3,6)]
    by (simp add: cumsum_def length_cumsum_from del: append.simps)
  have dk: "distinct (map fst (zip hs ?offs))"
    using assms(4,5) len by (simp add: map_fst_zip del: append.simps)
  have "(hs ! i, ?offs ! i) \<in> set (zip hs ?offs)"
    using assms(5,6) len by (auto simp: set_zip simp del: append.simps)
  then have "dict (zip hs ?offs) (hs ! i) = Some (?offs ! i)"
    by (simp only: dict_distinct_Some [OF dk])
  then show ?thesis
    by (simp only: makeOffsetsDataStructure_def Let_def nth)
qed

lemma prefix_sums_mono:
  assumes "\<forall>c\<in>set counts. (0::int) \<le> c" and "i \<le> j"
  shows "sum_list (take i counts) \<le> sum_list (take j counts)"
proof -
  have "take j counts = take i counts @ take (j - i) (drop i counts)"
    using assms(2) by (metis le_add_diff_inverse take_add)
  moreover have "0 \<le> sum_list (take (j - i) (drop i counts))"
    using assms(1) by (intro sum_list_nonneg) (auto dest: in_set_takeD in_set_dropD)
  ultimately show ?thesis by simp
qed

text \<open>
  Claim C5 as stated fails: the running totals wrap around in the accumulator. With a
  64-bit accumulator and the counts \<open>2^63 - 1\<close> and 1, the second row's end is
  \<open>- 2^63\<close>, not the sum \<open>2^63\<close>, and its begin exceeds its end.
\<close>

theorem makeOffsetsDataStructure_overflow_counterexample:
  "distinct [0, 1 :: int] \<and> (0::int) \<le> 9223372036854775807 \<and> (0::int) \<le> 1 \<and>
   makeOffsetsDataStructure 64 [9223372036854775807, 1] [0, 1] 1 =
     Some (9223372036854775807, - 9223372036854775808) \<and>
   sum_list [9223372036854775807, 1 :: int] = 9223372036854775808 \<and>
   \<not> (9223372036854775807 \<le> (- 9223372036854775808 :: int))"
  by (simp add: builder_defs)

text \<open>
  Claim C5, amended. For channel ids that occur once each, one event count per row,
  no negative count, and a total of the counts below \<open>2 ^ (bits - 1)\<close>, where \<open>bits\<close> is
  the width of the accumulator: row \<open>i\<close>'s channel id is mapped to \<open>(b, e)\<close> where \<open>e\<close> is
  the sum of the counts up to and including row \<open>i\<close> and \<open>b\<close> is the end of row \<open>i - 1\<close>
  (0 for the first row); \<open>b \<le> e\<close>; every later row's range begins at or after \<open>e\<close>, and
  the next row's range begins exactly at \<open>e\<close>.
\<close>

theorem makeOffsetsDataStructure_ranges:
  assumes "distinct holeNumbers" and "length holeNumbers = length numEvent"
    and "\<forall>c\<in>set numEvent. 0 \<le> c" and "i < length numEvent"
    and "0 < bits" and "sum_list numEvent < 2 ^ (bits - 1)"
  shows "\<exists>b e. makeOffsetsDataStructure bits numEvent holeNumbers (holeNumbers ! i) = Some (b, e) \<and>
           e = sum_list (take (Suc i) numEvent) \<and>
           b = (if i = 0 then 0 else sum_list (take (Suc (i - 1)) numEvent)) \<and>
           b \<le> e \<and>
           (\<forall>j. i < j \<and> j < length numEvent \<longrightarrow>
              (\<exists>b' e'. makeOffsetsDataStructure bits numEvent holeNumbers (holeNumbers ! j) = Some (b', e') \<and>
                 e \<le> b' \<and> (j = Suc i \<longrightarrow> b' = e)))"
proof -
  let ?P = "\<lambda>k. sum_list (take k numEvent)"
  have look: "makeOffsetsDataStructure bits numEvent holeNumbers (holeNumbers ! k) = Some (?P k, ?P (Suc k))"
    if "k < length numEvent" for k
    using assms(5,3,6,1,2) that by (rule offsets_lookup)
  have mono: "?P k \<le> ?P l" if "k \<le> l" for k l
    using assms(3) that by (rule prefix_sums_mono)
  have b0: "?P i = (if i = 0 then 0 else ?P (Suc (i - 1)))"
    by simp
  have later: "\<exists>b' e'. makeOffsetsDataStructure bits numEvent holeNumbers (holeNumbers ! j) = Some (b', e') \<and>
                 ?P (Suc i) \<le> b' \<and> (j = Suc i \<longrightarrow> b' = ?P (Suc i))"
    if "i < j \<and> j < length numEvent" for j
  proof -
    from that have "Suc i \<le> j" by simp
    then have "?P (Suc i) \<le> ?P j" by (rule mono)
    moreover have "makeOffsetsDataStructure bits numEvent holeNumbers (holeNumbers ! j) = Some (?P j, ?P (Suc j))"
      using that by (simp add: look)
    moreover have "j = Suc i \<longrightarrow> ?P j = ?P (Suc i)" by simp
    ultimately show ?thesis by (intro exI [of _ "?P j"] exI [of _ "?P (Suc j)"]) simp
  qed
  have here: "makeOffsetsDataStructure bits numEvent holeNumbers (holeNumbers ! i) = Some (?P i, ?P (Suc i))"
    using assms(4) by (rule look)
  have le: "?P i \<le> ?P (Suc i)" by (rule mono) simp
  show ?thesis
  proof (intro exI conjI)
    show "makeOffsetsDataStructure bits numEvent holeNumbers (holeNumbers ! i) = Some (?P i, ?P (Suc i))"
      by (rule here)
    show "?P (Suc i) = sum_list (take (Suc i) numEvent)" by (rule refl)
    show "?P i = (if i = 0 then 0 else ?P (Suc (i - 1)))" by (rule b0)
    show "?P i \<le> ?P (Suc i)" by (rule le)
    show "\<forall>j. i < j \<and> j < length numEvent \<longrightarrow>
              (\<exists>b' e'. makeOffsetsDataStructure bits numEvent holeNumbers (holeNumbers ! j) = Some (b', e') \<and>
                 ?P (Suc i) \<le> b' \<and> (j = Suc i \<longrightarrow> b' = ?P (Suc i)))"
      using later by blast
  qed
qed

theorem makeOffsetsDataStructure_ranges_witness:
  "distinct [7, 2, 9 :: int] \<and> length [7, 2, 9 :: int] = length [3, 0, 4 :: int] \<and>
   sum_list [3, 0, 4 :: int] < 2 ^ (64 - 1) \<and>
   makeOffsetsDataStructure 64 [3, 0, 4] [7, 2, 9] 2 = Some (3, 3) \<and>
   makeOffsetsDataStructure 64 [3, 0, 4] [7, 2, 9] 9 = Some (3, 7)"
proof -
  have d: "distinct [7, 2, 9 :: int]" by simp
  have l: "length [7, 2, 9 :: int] = length [3, 0, 4 :: int]" by simp
  have n: "\<forall>c\<in>set [3, 0, 4 :: int]. 0 \<le> c" by simp
  have i: "1 < length [3, 0, 4 :: int]" by simp
  have w: "(0::nat) < 64" by simp
  have t: "sum_list [3, 0, 4 :: int] < 2 ^ (64 - 1)" by simp
  from makeOffsetsDataStructure_ranges [OF d l n i w t]
  obtain b e where
    m: "makeOffsetsDataStructure 64 [3, 0, 4] [7, 2, 9] ([7, 2, 9] ! 1) = Some (b, e)"
       "e = sum_list (take (Suc 1) [3, 0, 4 :: int])"
       "b = (if (1::nat) = 0 then 0 else sum_list (take (Suc (1 - 1)) [3, 0, 4 :: int]))"
    by (elim exE conjE)
  from m have a: "makeOffsetsDataStructure 64 [3, 0, 4] [7, 2, 9] 2 = Some (3, 3)"
    by simp
  have c: "makeOffsetsDataStructure 64 [3, 0, 4] [7, 2, 9] 9 = Some (3, 7)"
    by (simp add: builder_defs)
  show ?thesis using a c t by simp
qed

section \<open>The region index (C4)\<close>

lemma flatnonzero_ediff1d:
  "hs \<noteq> [] \<Longrightarrow> flatnonzero (ediff1d hs [1] [1]) = changepoints_at 0 hs"
  by (cases hs) (simp_all add: flatnonzero_def ediff1d_def changepoints_at_def nonzero_from_snoc length_ediff)

lemma changepoints_at_single: "changepoints_at k [x] = [k, Suc k]"
  by (simp add: changepoints_at_def)

lemma changepoints_at_neq:
  "in_int32 x \<Longrightarrow> in_int32 y \<Longrightarrow> x \<noteq> y \<Longrightarrow>
   changepoints_at k (x # y # r) = k # changepoints_at (Suc k) (y # r)"
  by (simp add: changepoints_at_def int32_diff_zero)

lemma changepoints_at_eq:
  "changepoints_at k (x # x # r) = k # tl (changepoints_at (Suc k) (x # r))"
  by (simp add: changepoints_at_def int32_def)

lemma pairs_Cons2: "pairs (a # b # cs) = (a, b) # pairs (b # cs)"
  by (simp add: pairs_def)

lemma distinct_remdups_adj_sorted:
  "sorted xs \<Longrightarrow> distinct (remdups_adj xs)"
  by (induction xs rule: remdups_adj.induct) auto

lemma unique_sorted: "sorted hs \<Longrightarrow> unique hs = remdups_adj hs"
proof -
  assume s: "sorted hs"
  have "unique hs = sorted_list_of_set (set (remdups_adj hs))"
    by (simp add: unique_def sorted_list_of_set_sort_remdups)
  also have "\<dots> = remdups_adj hs"
    by (rule sorted_list_of_set.idem_if_sorted_distinct)
       (simp_all add: s sorted_remdups_adj distinct_remdups_adj_sorted)
  finally show ?thesis .
qed

lemma changepoints_at_Cons:
  "\<exists>c cs. changepoints_at k hs = k # c # cs"
  by (cases "nonzero_from (Suc k) (ediff hs)") (simp_all add: changepoints_at_def)

lemma zipped_seg:
  "hs \<noteq> [] \<Longrightarrow> \<forall>h\<in>set hs. in_int32 h \<Longrightarrow>
   seg k hs (zipped k hs) \<and> map fst (zipped k hs) = remdups_adj hs"
proof (induction hs arbitrary: k rule: remdups_adj.induct)
  case 1
  then show ?case by simp
next
  case (2 x)
  show ?case
    by (simp add: zipped_def changepoints_at_single pairs_def)
next
  case (3 x y r)
  obtain c cs where C: "changepoints_at (Suc k) (y # r) = Suc k # c # cs"
    using changepoints_at_Cons by blast
  have "hd (remdups_adj (y # r)) # tl (remdups_adj (y # r)) = remdups_adj (y # r)"
    by (rule hd_Cons_tl) simp
  then have "remdups_adj (y # r) = y # tl (remdups_adj (y # r))"
    by (simp del: remdups_adj.simps)
  then obtain us where U: "remdups_adj (y # r) = y # us" ..
  have Z: "zipped (Suc k) (y # r) = (y, Suc k, c) # zip us (pairs (c # cs))"
    by (simp add: zipped_def C U pairs_Cons2)
  have range: "\<forall>h\<in>set (y # r). in_int32 h" "in_int32 x" "in_int32 y"
    using "3.prems" by simp_all
  show ?case
  proof (cases "x = y")
    case True
    have IH: "seg (Suc k) (y # r) (zipped (Suc k) (y # r)) \<and>
              map fst (zipped (Suc k) (y # r)) = remdups_adj (y # r)"
      using "3.IH"(1) [OF True, of "Suc k"] range(1) True by simp
    have Zk: "zipped k (x # y # r) = (y, k, c) # zip us (pairs (c # cs))"
      using True by (simp add: zipped_def changepoints_at_eq C U pairs_Cons2)
    from IH Z have s: "Suc k < c" "c - Suc k \<le> length (y # r)"
      "take (c - Suc k) (y # r) = replicate (c - Suc k) y"
      "seg c (drop (c - Suc k) (y # r)) (zip us (pairs (c # cs)))"
      and m: "map fst (zip us (pairs (c # cs))) = us"
      by (simp_all add: U)
    have ck: "c - k = Suc (c - Suc k)" using s(1) by simp
    have "seg k (x # y # r) ((y, k, c) # zip us (pairs (c # cs)))"
      using s True by (simp add: ck)
    then show ?thesis using Zk m True U by simp
  next
    case False
    have IH: "seg (Suc k) (y # r) (zipped (Suc k) (y # r)) \<and>
              map fst (zipped (Suc k) (y # r)) = remdups_adj (y # r)"
      using "3.IH"(2) [OF False, of "Suc k"] range(1) by simp
    have Zk: "zipped k (x # y # r) = (x, k, Suc k) # zipped (Suc k) (y # r)"
      using False range
      by (simp add: zipped_def changepoints_at_neq C pairs_Cons2)
    show ?thesis using IH False by (simp add: Zk)
  qed
qed

lemma seg_sound:
  "seg k hs zs \<Longrightarrow> (h, s, e) \<in> set zs \<Longrightarrow>
   k \<le> s \<and> s < e \<and> e \<le> k + length hs \<and> (\<forall>i. s \<le> i \<and> i < e \<longrightarrow> hs ! (i - k) = h)"
proof (induction zs arbitrary: k hs)
  case Nil
  then show ?case by simp
next
  case (Cons z zs)
  obtain h0 s0 e0 where z: "z = (h0, s0, e0)" by (cases z)
  from Cons.prems(1) z have a: "s0 = k" "k < e0" "e0 - k \<le> length hs"
    "take (e0 - k) hs = replicate (e0 - k) h0" "seg e0 (drop (e0 - k) hs) zs"
    by auto
  show ?case
  proof (cases "(h, s, e) = z")
    case True
    then have eq: "h = h0" "s = k" "e = e0" using z a by simp_all
    have "hs ! (i - k) = h0" if "k \<le> i" "i < e0" for i
    proof -
      have "i - k < e0 - k" using that a by simp
      then have "take (e0 - k) hs ! (i - k) = hs ! (i - k)" by simp
      moreover have "replicate (e0 - k) h0 ! (i - k) = h0"
        using \<open>i - k < e0 - k\<close> by simp
      ultimately show ?thesis using a(4) by simp
    qed
    then show ?thesis using eq a by auto
  next
    case False
    then have "(h, s, e) \<in> set zs" using Cons.prems(2) by simp
    from Cons.IH [OF a(5) this]
    have b: "e0 \<le> s" "s < e" "e \<le> e0 + length (drop (e0 - k) hs)"
      "\<forall>i. s \<le> i \<and> i < e \<longrightarrow> drop (e0 - k) hs ! (i - e0) = h"
      by simp_all
    have "hs ! (i - k) = h" if "s \<le> i" "i < e" for i
    proof -
      have "drop (e0 - k) hs ! (i - e0) = h" using b(4) that by simp
      moreover have "e0 - k + (i - e0) = i - k" using that b(1) a(2) by simp
      ultimately show ?thesis using a(3) by (simp add: nth_drop)
    qed
    then show ?thesis using a b by auto
  qed
qed

lemma seg_cover:
  "seg k hs zs \<Longrightarrow> i < length hs \<Longrightarrow>
   \<exists>s e. (hs ! i, s, e) \<in> set zs \<and> s \<le> k + i \<and> k + i < e"
proof (induction zs arbitrary: k hs i)
  case Nil
  then show ?case by simp
next
  case (Cons z zs)
  obtain h0 s0 e0 where z: "z = (h0, s0, e0)" by (cases z)
  from Cons.prems(1) z have a: "s0 = k" "k < e0" "e0 - k \<le> length hs"
    "take (e0 - k) hs = replicate (e0 - k) h0" "seg e0 (drop (e0 - k) hs) zs"
    by auto
  show ?case
  proof (cases "i < e0 - k")
    case True
    then have "take (e0 - k) hs ! i = hs ! i" by simp
    moreover have "replicate (e0 - k) h0 ! i = h0" using True by simp
    ultimately have "hs ! i = h0" using a(4) by simp
    then have "(hs ! i, k, e0) \<in> set (z # zs) \<and> k \<le> k + i \<and> k + i < e0"
      using z a True by auto
    then show ?thesis by blast
  next
    case False
    then have j: "i - (e0 - k) < length (drop (e0 - k) hs)"
      using Cons.prems(2) by simp
    from Cons.IH [OF a(5) j] obtain s e where
      m: "(drop (e0 - k) hs ! (i - (e0 - k)), s, e) \<in> set zs"
        "s \<le> e0 + (i - (e0 - k))" "e0 + (i - (e0 - k)) < e"
      by blast
    have "drop (e0 - k) hs ! (i - (e0 - k)) = hs ! i"
      using False a(3) by (simp add: nth_drop)
    moreover have "e0 + (i - (e0 - k)) = k + i" using False a(2) by simp
    ultimately have "(hs ! i, s, e) \<in> set (z # zs) \<and> s \<le> k + i \<and> k + i < e"
      using m by simp
    then show ?thesis by blast
  qed
qed

text \<open>
  Claim C4 as stated fails: the table with hole numbers 5, 5, 3 is contiguous, yet
  the index maps hole 3 to rows \<open>[0, 2)\<close>, which carry hole 5, and hole 5 to row 2,
  which carries hole 3. \<^verbatim>\<open>np.unique\<close> returns the ids in ascending order while the
  ranges are in table order.
\<close>

theorem makeRegionTableIndex_unsorted_counterexample:
  "contiguous [5, 5, 3] \<and> in_int32 5 \<and> in_int32 3 \<and>
   makeRegionTableIndex [5, 5, 3] 3 = Some (0, 2) \<and> [5, 5, 3 :: int] ! 0 = 5 \<and>
   makeRegionTableIndex [5, 5, 3] 5 = Some (2, 3) \<and> [5, 5, 3 :: int] ! 2 = 3"
  by (simp add: contiguous_def in_int32_def makeRegionTableIndex_def ediff1d_def
      flatnonzero_def unique_def dict_def int32_def)

text \<open>
  Claim C4, amended. For a table whose hole-number column is in ascending order
  (hence contiguous), every hole number of the table is mapped to a non-empty range
  \<open>[s, e)\<close> of rows, and the rows in that range are exactly the rows that carry the hole
  number; a hole number that is not in the table has no entry.
\<close>

theorem makeRegionTableIndex_sorted:
  assumes "sorted hs" and "\<forall>h\<in>set hs. in_int32 h"
  shows "(\<forall>h\<in>set hs. \<exists>s e. makeRegionTableIndex hs h = Some (s, e) \<and> s < e \<and> e \<le> length hs \<and>
            (\<forall>i<length hs. (hs ! i = h) = (s \<le> i \<and> i < e))) \<and>
         (\<forall>h. h \<notin> set hs \<longrightarrow> makeRegionTableIndex hs h = None)"
proof (cases "hs = []")
  case True
  then show ?thesis
    by (simp add: makeRegionTableIndex_def unique_def dict_def)
next
  case False
  have idx: "makeRegionTableIndex hs = dict (zipped 0 hs)"
    by (simp add: makeRegionTableIndex_def Let_def flatnonzero_ediff1d [OF False]
        unique_sorted [OF assms(1)] zipped_def pairs_def)
  from zipped_seg [OF False assms(2), of 0]
  have sg: "seg 0 hs (zipped 0 hs)" and keys: "map fst (zipped 0 hs) = remdups_adj hs"
    by simp_all
  have dk: "distinct (map fst (zipped 0 hs))"
    by (simp add: keys distinct_remdups_adj_sorted assms(1))
  have present: "\<exists>s e. makeRegionTableIndex hs h = Some (s, e) \<and> s < e \<and> e \<le> length hs \<and>
            (\<forall>i<length hs. (hs ! i = h) = (s \<le> i \<and> i < e))" if "h \<in> set hs" for h
  proof -
    from that obtain i where i: "i < length hs" "hs ! i = h"
      by (auto simp: in_set_conv_nth)
    from seg_cover [OF sg i(1)] i(2) obtain s e where
      m: "(h, s, e) \<in> set (zipped 0 hs)" "s \<le> i" "i < e"
      by auto
    have look: "makeRegionTableIndex hs h = Some (s, e)"
      using m(1) by (simp add: idx dict_distinct_Some [OF dk])
    from seg_sound [OF sg m(1)]
    have b: "s < e" "e \<le> length hs" "\<forall>j. s \<le> j \<and> j < e \<longrightarrow> hs ! j = h"
      by simp_all
    have "(hs ! j = h) = (s \<le> j \<and> j < e)" if j: "j < length hs" for j
    proof
      assume "hs ! j = h"
      with seg_cover [OF sg j] obtain s' e' where
        m': "(h, s', e') \<in> set (zipped 0 hs)" "s' \<le> j" "j < e'"
        by auto
      have "dict (zipped 0 hs) h = Some (s', e')"
        using m'(1) by (simp add: dict_distinct_Some [OF dk])
      with look idx have "s' = s" "e' = e" by simp_all
      with m' show "s \<le> j \<and> j < e" by simp
    next
      assume "s \<le> j \<and> j < e"
      with b(3) show "hs ! j = h" by blast
    qed
    with look b show ?thesis by blast
  qed
  have absent: "makeRegionTableIndex hs h = None" if "h \<notin> set hs" for h
  proof -
    have "fst ` set (zipped 0 hs) = set (map fst (zipped 0 hs))"
      by simp
    also have "\<dots> = set hs"
      by (simp only: keys remdups_adj_set)
    finally have "fst ` set (zipped 0 hs) = set hs" .
    then show ?thesis using that by (simp add: idx dict_None)
  qed
  show ?thesis using present absent by blast
qed

theorem makeRegionTableIndex_sorted_witness:
  "sorted [3, 5, 5, 9 :: int] \<and> in_int32 3 \<and> in_int32 5 \<and> in_int32 9 \<and>
   (\<exists>s e. makeRegionTableIndex [3, 5, 5, 9] 5 = Some (s, e) \<and> s < e \<and> e \<le> 4 \<and>
      (([3, 5, 5, 9 :: int] ! 2 = 5) = (s \<le> 2 \<and> 2 < e))) \<and>
   makeRegionTableIndex [3, 5, 5, 9] 5 = Some (1, 3) \<and>
   makeRegionTableIndex [3, 5, 5, 9] 4 = None"
proof -
  have s: "sorted [3, 5, 5, 9 :: int]" by simp
  have r: "\<forall>h\<in>set [3, 5, 5, 9 :: int]. in_int32 h" by (simp add: in_int32_def)
  note t = makeRegionTableIndex_sorted [OF s r]
  from t have a: "\<forall>h\<in>set [3, 5, 5, 9 :: int]. \<exists>s e.
      makeRegionTableIndex [3, 5, 5, 9] h = Some (s, e) \<and> s < e \<and> e \<le> length [3, 5, 5, 9 :: int] \<and>
      (\<forall>i<length [3, 5, 5, 9 :: int]. ([3, 5, 5, 9 :: int] ! i = h) = (s \<le> i \<and> i < e))"
    by (rule conjunct1)
  from t have b: "\<forall>h. h \<notin> set [3, 5, 5, 9 :: int] \<longrightarrow> makeRegionTableIndex [3, 5, 5, 9] h = None"
    by (rule conjunct2)
  have "5 \<in> set [3, 5, 5, 9 :: int]" by simp
  from bspec [OF a this] obtain s e where
    m: "makeRegionTableIndex [3, 5, 5, 9] 5 = Some (s, e)" "s < e" "e \<le> length [3, 5, 5, 9 :: int]"
      "\<forall>i<length [3, 5, 5, 9 :: int]. ([3, 5, 5, 9 :: int] ! i = 5) = (s \<le> i \<and> i < e)"
    by blast
  have "([3, 5, 5, 9 :: int] ! 2 = 5) = (s \<le> 2 \<and> 2 < e)"
    using m(4) by (drule_tac x = 2 in spec) simp
  with m have c: "\<exists>s e. makeRegionTableIndex [3, 5, 5, 9] 5 = Some (s, e) \<and> s < e \<and> e \<le> 4 \<and>
      (([3, 5, 5, 9 :: int] ! 2 = 5) = (s \<le> 2 \<and> 2 < e))"
    by auto
  have d: "makeRegionTableIndex [3, 5, 5, 9] 4 = None" using b by simp
  have e: "makeRegionTableIndex [3, 5, 5, 9] 5 = Some (1, 3)"
    by (simp add: makeRegionTableIndex_def ediff1d_def flatnonzero_def unique_def dict_def int32_def)
  show ?thesis using s c d e by (simp add: in_int32_def)
qed

section \<open>Region rows of a channel (C6)\<close>

text \<open>
  Claim C6 as stated fails: hole 0 of the example reader has a channel view and no
  annotation row, and its \<^verbatim>\<open>regionTable\<close> raises \<^verbatim>\<open>KeyError\<close>.
\<close>

theorem Zmw_regionTable_absent_counterexample:
  "Zmw_init ex_bax 0 = Inr ex_zmw0 \<and>
   filter (\<lambda>r. holeNumber r = 0) (regionTable ex_bax) = [] \<and>
   regionTableIndex (baxH5 ex_zmw0) (zmw_holeNumber ex_zmw0) = None \<and>
   Zmw_regionTable ex_zmw0 = Inl KeyError"
  by (simp add: Zmw_init_def Zmw_regionTable_def ex_zmw0_def ex_bax_def ex_rows_def builder_defs)

text \<open>
  Claim C6, amended. For a channel whose id has no entry in the region index,
  \<^verbatim>\<open>regionTable\<close> fails with \<^verbatim>\<open>KeyError\<close>; for a channel whose id has the entry
  \<open>(startRow, endRow)\<close> it returns the rows of the table at the positions from
  \<open>startRow\<close> up to but excluding \<open>endRow\<close>.
\<close>

theorem Zmw_regionTable_lookup:
  "(regionTableIndex (baxH5 z) (zmw_holeNumber z) = None \<longrightarrow> Zmw_regionTable z = Inl KeyError) \<and>
   (\<forall>startRow endRow. regionTableIndex (baxH5 z) (zmw_holeNumber z) = Some (startRow, endRow) \<longrightarrow>
      Zmw_regionTable z = Inr (map (\<lambda>i. regionTable (baxH5 z) ! i)
                                 [startRow ..< min endRow (length (regionTable (baxH5 z)))]))"
proof -
  have "drop a (take b xs) = map (\<lambda>i. xs ! i) [a ..< min b (length xs)]" for a b and xs :: "region_row list"
    by (simp add: list_eq_iff_nth_eq min_def) 
  then show ?thesis
    by (simp add: Zmw_regionTable_def py_slice_def)
qed

theorem Zmw_regionTable_lookup_witness:
  "regionTableIndex (baxH5 ex_zmw8) (zmw_holeNumber ex_zmw8) = Some (0, 5) \<and>
   Zmw_regionTable ex_zmw8 = Inr ex_rows \<and>
   regionTableIndex (baxH5 ex_zmw0) (zmw_holeNumber ex_zmw0) = None \<and>
   Zmw_regionTable ex_zmw0 = Inl KeyError"
proof -
  have a: "regionTableIndex (baxH5 ex_zmw8) (zmw_holeNumber ex_zmw8) = Some (0, 5)"
    by (simp add: ex_zmw8_def ex_bax_def ex_rows_def builder_defs)
  have b: "regionTableIndex (baxH5 ex_zmw0) (zmw_holeNumber ex_zmw0) = None"
    by (simp add: ex_zmw0_def ex_bax_def ex_rows_def builder_defs)
  have c: "map (\<lambda>i. regionTable (baxH5 ex_zmw8) ! i) [0 ..< min 5 (length (regionTable (baxH5 ex_zmw8)))] = ex_rows"
    by (simp add: ex_zmw8_def ex_bax_def ex_rows_def upt_rec)
  from Zmw_regionTable_lookup [of ex_zmw8] a have "Zmw_regionTable ex_zmw8 = Inr ex_rows"
    by (simp only: c)
  moreover from Zmw_regionTable_lookup [of ex_zmw0] b have "Zmw_regionTable ex_zmw0 = Inl KeyError"
    by simp
  ultimately show ?thesis using a b by simp
qed

section \<open>The high-quality interval (C2)\<close>




section \<open>Adapter and insert intervals (C3)\<close>







section \<open>Partition routing (C7)\<close>

text \<open>
  Claim C7. For a multi-part file with parts \<open>ps\<close> and routing vector \<open>R\<close>, the scalar
  lookup of a channel id \<open>h\<close> that is a position of \<open>R\<close> with \<open>1 \<le> R[h] \<le> N\<close> is the
  lookup of \<open>h\<close> in part \<open>R[h] - 1\<close>. A file without a multi-part declaration opens as
  a reader over the one part, and every channel id is looked up there.
\<close>

theorem getitemScalar_routing:
  "(\<forall>ps R rdr h. MultiPart f = Some (ps, R) \<and> BasH5Reader_init f = Inr rdr \<and>
       0 \<le> h \<and> h < int (length R) \<and> 1 \<le> R ! nat h \<and> R ! nat h \<le> int (length ps) \<longrightarrow>
       getitemScalar rdr h = BaxH5Reader_getitem (ps ! nat (R ! nat h - 1)) h) \<and>
   (MultiPart f = None \<longrightarrow>
      (\<exists>rdr. BasH5Reader_init f = Inr rdr \<and> parts rdr = [selfPart f] \<and>
         (\<forall>h. getitemScalar rdr h = BaxH5Reader_getitem (selfPart f) h)))"
  by (auto simp: BasH5Reader_init_def np_concatenate_def getitemScalar_def holeLookup_def
      py_getitem_def Let_def split: if_splits)

theorem getitemScalar_routing_witness:
  "BasH5Reader_init ex_single = Inr ex_bas \<and>
   getitemScalar ex_bas 8 = Inr ex_zmw8 \<and>
   (\<exists>rdr. BasH5Reader_init ex_multi = Inr rdr \<and>
      getitemScalar rdr 2 = BaxH5Reader_getitem ex_bax_b 2 \<and>
      getitemScalar rdr 8 = Inr ex_zmw8)"
proof -
  note t = getitemScalar_routing [of ex_single]
  note u = getitemScalar_routing [of ex_multi]
  have i: "BasH5Reader_init ex_single = Inr ex_bas"
    by (simp add: BasH5Reader_init_def np_concatenate_def ex_single_def ex_bas_def ex_bax_def)
  have z: "BaxH5Reader_getitem ex_bax 8 = Inr ex_zmw8"
    by (simp add: BaxH5Reader_getitem_def Zmw_init_def ex_zmw8_def) (simp add: ex_bax_def dict_def)
  from t i have a: "getitemScalar ex_bas 8 = BaxH5Reader_getitem ex_bax 8"
    by (simp add: ex_single_def)
  obtain rdr where r: "BasH5Reader_init ex_multi = Inr rdr"
    by (simp add: BasH5Reader_init_def np_concatenate_def ex_multi_def)
  from u r have b: "getitemScalar rdr 2 = BaxH5Reader_getitem ([ex_bax, ex_bax_b] ! nat ([1, 0, 2, 2, 0, 0, 0, 0, 1] ! nat 2 - 1)) 2"
    by (simp add: ex_multi_def)
  from u r have c: "getitemScalar rdr 8 = BaxH5Reader_getitem ([ex_bax, ex_bax_b] ! nat ([1, 0, 2, 2, 0, 0, 0, 0, 1] ! nat 8 - 1)) 8"
    by (simp add: ex_multi_def)
  show ?thesis using i a z r b c by simp
qed

section \<open>Bulk lookup (C10)\<close>

text \<open>
  Claim C10. Bulk lookup with an empty list or array returns the empty list, whatever
  the type of its entries would be.
\<close>

theorem getitem_empty_sequence:
  "seq_len s = 0 \<Longrightarrow> BasH5Reader_getitem rdr (SeqKey s) = Inr (Many [])"
  by (simp add: BasH5Reader_getitem_def)

theorem getitem_empty_sequence_witness:
  "seq_len (IntSeq []) = 0 \<and> seq_len (BoolSeq []) = 0 \<and> seq_len (OtherSeq 0) = 0 \<and>
   BasH5Reader_getitem ex_bas (SeqKey (IntSeq [])) = Inr (Many []) \<and>
   BasH5Reader_getitem ex_bas (SeqKey (BoolSeq [])) = Inr (Many []) \<and>
   BasH5Reader_getitem ex_bas (SeqKey (OtherSeq 0)) = Inr (Many [])"
  using getitem_empty_sequence [of "IntSeq []" ex_bas]
    getitem_empty_sequence [of "BoolSeq []" ex_bas]
    getitem_empty_sequence [of "OtherSeq 0" ex_bas]
  by simp

section \<open>Boolean selectors and rejected inputs (C8)\<close>

lemma upt_0_Suc_shift: "[0..<Suc n] = 0 # map Suc [0..<n]"
  by (simp add: upt_conv_Cons map_Suc_upt del: upt_Suc)

lemma nonzero_from_filter:
  "nonzero_from k ds = map (\<lambda>i. k + i) (filter (\<lambda>i. ds ! i \<noteq> 0) [0..<length ds])"
proof (induction ds arbitrary: k)
  case Nil
  then show ?case by simp
next
  case (Cons d ds)
  have "filter (\<lambda>i. (d # ds) ! i \<noteq> 0) [0..<length (d # ds)] =
          (if d \<noteq> 0 then [0] else []) @ map Suc (filter (\<lambda>i. ds ! i \<noteq> 0) [0..<length ds])"
    by (simp add: upt_0_Suc_shift filter_map o_def del: upt_Suc)
  then show ?case
    by (simp add: Cons.IH o_def del: upt_Suc)
qed

lemma flatnonzero_bools:
  "flatnonzero (map (\<lambda>b. if b then 1 else 0) bs) = filter (\<lambda>i. bs ! i) [0..<length bs]"
proof -
  have "filter (\<lambda>i. map (\<lambda>b. if b then 1 else (0::int)) bs ! i \<noteq> 0) [0..<length bs] =
        filter (\<lambda>i. bs ! i) [0..<length bs]"
    by (rule filter_cong) simp_all
  then show ?thesis
    by (simp add: flatnonzero_def nonzero_from_filter)
qed

lemma mapM_Inr: "(mapM f xs = Inr ys) = (map f xs = map Inr ys)"
proof (induction xs arbitrary: ys)
  case Nil
  then show ?case by auto
next
  case (Cons x xs)
  show ?case
  proof (cases ys)
    case Nil
    then show ?thesis by (simp split: sum.splits)
  next
    case (Cons y ys')
    then show ?thesis using Cons.IH [of ys'] by (auto split: sum.splits)
  qed
qed

text \<open>
  Claim C8 as stated fails: on the example reader the usable-channel list is \<open>[8]\<close>;
  the selector \<open>[True]\<close>, aligned with it, yields the view of hole 0 (the position of
  the true entry), not the view of hole 8.
\<close>

theorem getitem_bool_selector_counterexample:
  "bas_sequencingZmws ex_bas = [8] \<and>
   length [True] = length (bas_sequencingZmws ex_bas) \<and>
   BasH5Reader_getitem ex_bas (SeqKey (BoolSeq [True])) = Inr (Many [ex_zmw0]) \<and>
   getitemScalar ex_bas 8 = Inr ex_zmw8 \<and>
   ex_zmw0 \<noteq> ex_zmw8"
proof -
  have z0: "getitemScalar ex_bas 0 = Inr ex_zmw0"
    by (simp add: getitemScalar_def holeLookup_def py_getitem_def ex_bas_def
        BaxH5Reader_getitem_def Zmw_init_def ex_zmw0_def) (simp add: ex_bax_def dict_def)
  have z8: "getitemScalar ex_bas 8 = Inr ex_zmw8"
    by (simp add: getitemScalar_def holeLookup_def py_getitem_def ex_bas_def
        BaxH5Reader_getitem_def Zmw_init_def ex_zmw8_def) (simp add: ex_bax_def dict_def)
  have g: "BasH5Reader_getitem ex_bas (SeqKey (BoolSeq [True])) = Inr (Many [ex_zmw0])"
    by (simp add: BasH5Reader_getitem_def many_def flatnonzero_def z0)
  have n: "ex_zmw0 \<noteq> ex_zmw8"
    by (simp add: ex_zmw0_def ex_zmw8_def)
  show ?thesis using z8 g n by (simp add: ex_bas_def)
qed

text \<open>
  Claim C8, amended. A boolean selector yields the channel views of the channel ids
  that equal the positions of its true entries (position \<open>i\<close> selects channel id \<open>i\<close>),
  in ascending order, each by scalar lookup, and fails as the first failing scalar
  lookup does. An input that is no integer, slice, list or array fails with a type
  error, and so does a non-empty list or array whose entries are neither integers nor
  booleans.
\<close>

theorem getitem_bool_selector:
  "BasH5Reader_getitem rdr (SeqKey (BoolSeq bs)) =
     (case mapM (getitemScalar rdr) (map int (filter (\<lambda>i. bs ! i) [0..<length bs])) of
        Inl e \<Rightarrow> Inl e
      | Inr zs \<Rightarrow> Inr (Many zs)) \<and>
   (\<forall>zs. (BasH5Reader_getitem rdr (SeqKey (BoolSeq bs)) = Inr (Many zs)) =
      (map (getitemScalar rdr) (map int (filter (\<lambda>i. bs ! i) [0..<length bs])) = map Inr zs)) \<and>
   BasH5Reader_getitem rdr OtherKey = Inl TypeError \<and>
   (0 < n \<longrightarrow> BasH5Reader_getitem rdr (SeqKey (OtherSeq n)) = Inl TypeError)"
proof -
  let ?pos = "map int (filter (\<lambda>i. bs ! i) [0..<length bs])"
  have a: "BasH5Reader_getitem rdr (SeqKey (BoolSeq bs)) =
     (case mapM (getitemScalar rdr) ?pos of Inl e \<Rightarrow> Inl e | Inr zs \<Rightarrow> Inr (Many zs))"
    by (cases "bs = []") (simp_all add: BasH5Reader_getitem_def many_def flatnonzero_bools)
  have b: "(BasH5Reader_getitem rdr (SeqKey (BoolSeq bs)) = Inr (Many zs)) =
      (map (getitemScalar rdr) ?pos = map Inr zs)" for zs
    unfolding a mapM_Inr [symmetric] by (simp split: sum.splits)
  have c: "BasH5Reader_getitem rdr OtherKey = Inl TypeError"
    by (simp add: BasH5Reader_getitem_def)
  have d: "0 < n \<longrightarrow> BasH5Reader_getitem rdr (SeqKey (OtherSeq n)) = Inl TypeError"
    by (simp add: BasH5Reader_getitem_def)
  show ?thesis using a b c d by blast
qed

theorem getitem_bool_selector_witness:
  "BasH5Reader_getitem ex_bas (SeqKey (BoolSeq [True, False])) = Inr (Many [ex_zmw0]) \<and>
   BasH5Reader_getitem ex_bas (SeqKey (BoolSeq [False, True])) = Inl KeyError \<and>
   BasH5Reader_getitem ex_bas OtherKey = Inl TypeError \<and>
   BasH5Reader_getitem ex_bas (SeqKey (OtherSeq 2)) = Inl TypeError"
proof -
  have z0: "getitemScalar ex_bas 0 = Inr ex_zmw0"
    by (simp add: getitemScalar_def holeLookup_def py_getitem_def ex_bas_def
        BaxH5Reader_getitem_def Zmw_init_def ex_zmw0_def) (simp add: ex_bax_def dict_def)
  have z1: "getitemScalar ex_bas 1 = Inl KeyError"
    by (simp add: getitemScalar_def holeLookup_def py_getitem_def ex_bas_def
        BaxH5Reader_getitem_def Zmw_init_def) (simp add: ex_bax_def dict_def)
  have p: "filter (\<lambda>i. [True, False] ! i) [0..<length [True, False]] = [0]"
    by (simp add: upt_rec)
  have q: "filter (\<lambda>i. [False, True] ! i) [0..<length [False, True]] = [1]"
    by (simp add: upt_rec)
  note t = getitem_bool_selector [of ex_bas "[True, False]" 2]
  note u = getitem_bool_selector [of ex_bas "[False, True]" 2]
  have a: "BasH5Reader_getitem ex_bas (SeqKey (BoolSeq [True, False])) = Inr (Many [ex_zmw0])"
    using t by (simp only: p) (simp add: z0)
  have b: "BasH5Reader_getitem ex_bas (SeqKey (BoolSeq [False, True])) = Inl KeyError"
    using u by (simp only: q) (simp add: z1)
  have c: "BasH5Reader_getitem ex_bas OtherKey = Inl TypeError"
    using t by blast
  have d: "BasH5Reader_getitem ex_bas (SeqKey (OtherSeq 2)) = Inl TypeError"
    using t by simp
  show ?thesis using a b c d by simp
qed

section \<open>The metric cache (C9)\<close>

lemma cache_consistent_fresh: "cache_consistent g fresh_cache"
  by (simp add: cache_consistent_def fresh_cache_def)

lemma zmwMetric_hit:
  "metricCache s n \<noteq> None \<Longrightarrow> snd (zmwMetric g s n i) = s"
  by (auto simp: zmwMetric_def)

lemma zmwMetric_miss:
  "metricCache s n = None \<Longrightarrow> g (''ZMWMetrics'' @ ''/'' @ n) = Some a \<Longrightarrow>
   snd (zmwMetric g s n i) =
     s\<lparr>metricCache := (metricCache s)(n \<mapsto> a), reads := reads s @ [''ZMWMetrics'' @ ''/'' @ n]\<rparr>"
  by (simp add: zmwMetric_def Let_def)

lemma zmwMetric_absent:
  "metricCache s n = None \<Longrightarrow> g (''ZMWMetrics'' @ ''/'' @ n) = None \<Longrightarrow>
   zmwMetric g s n i = (Inl KeyError, s)"
  by (simp add: zmwMetric_def Let_def)

lemma zmwMetric_result:
  assumes "cache_consistent g s"
  shows "fst (zmwMetric g s n i) = direct_metric g n i"
proof (cases "metricCache s n")
  case None
  then show ?thesis
    by (cases "g (''ZMWMetrics'' @ ''/'' @ n)") (simp_all add: zmwMetric_def direct_metric_def Let_def)
next
  case (Some v)
  with assms have "g (''ZMWMetrics'' @ ''/'' @ n) = Some v"
    unfolding cache_consistent_def by blast
  with Some show ?thesis
    by (simp add: zmwMetric_def direct_metric_def)
qed

lemma zmwMetric_consistent:
  assumes "cache_consistent g s"
  shows "cache_consistent g (snd (zmwMetric g s n i))"
proof (cases "metricCache s n")
  case (Some v)
  then show ?thesis using assms by (simp add: zmwMetric_hit)
next
  case None
  show ?thesis
  proof (cases "g (''ZMWMetrics'' @ ''/'' @ n)")
    case N: None
    then show ?thesis using None assms by (simp add: zmwMetric_absent)
  next
    case (Some a)
    have fresh: "''ZMWMetrics'' @ ''/'' @ n \<notin> set (reads s)"
      using assms None unfolding cache_consistent_def by auto
    have st: "snd (zmwMetric g s n i) =
        s\<lparr>metricCache := (metricCache s)(n \<mapsto> a), reads := reads s @ [''ZMWMetrics'' @ ''/'' @ n]\<rparr>"
      using None Some by (rule zmwMetric_miss)
    show ?thesis
      using assms None Some fresh
      unfolding st cache_consistent_def
      by auto
  qed
qed

lemma zmwMetric_calls_consistent:
  "cache_consistent g s \<Longrightarrow>
   fst (zmwMetric_calls g s cs) = map (\<lambda>(n, i). direct_metric g n i) cs \<and>
   cache_consistent g (snd (zmwMetric_calls g s cs))"
proof (induction cs arbitrary: s)
  case Nil
  then show ?case by simp
next
  case (Cons c cs)
  obtain n i where c: "c = (n, i)" by (cases c)
  let ?s' = "snd (zmwMetric g s n i)"
  have s': "cache_consistent g ?s'"
    using Cons.prems by (rule zmwMetric_consistent)
  have r: "fst (zmwMetric g s n i) = direct_metric g n i"
    using Cons.prems by (rule zmwMetric_result)
  from Cons.IH [OF s'] r show ?case
    by (simp add: c split_beta)
qed

text \<open>
  Claim C9. Over any sequence of calls on a fresh reader, every call returns what
  the un-cached lookup returns and no key of the backing group is read twice. A call
  for a cached name leaves the cache and the read log as they are; the first call for
  a stored name caches the array and reads it once. The un-cached lookup of a
  multi-dimensional metric indexes the first axis and yields the remaining sub-array;
  that of a one-dimensional metric yields the entry at the row index.
\<close>

theorem zmwMetric_cache:
  "fst (zmwMetric_calls g fresh_cache cs) = map (\<lambda>(n, i). direct_metric g n i) cs \<and>
   distinct (reads (snd (zmwMetric_calls g fresh_cache cs))) \<and>
   (\<forall>s n i. metricCache s n \<noteq> None \<longrightarrow> snd (zmwMetric g s n i) = s) \<and>
   (\<forall>s n i a. metricCache s n = None \<and> g (''ZMWMetrics'' @ ''/'' @ n) = Some a \<longrightarrow>
      metricCache (snd (zmwMetric g s n i)) = (metricCache s)(n \<mapsto> a) \<and>
      reads (snd (zmwMetric g s n i)) = reads s @ [''ZMWMetrics'' @ ''/'' @ n]) \<and>
   (\<forall>n i d0 d1 ds xs.
      g (''ZMWMetrics'' @ ''/'' @ n) = Some (NDArray (d0 # d1 # ds) xs) \<and> 0 \<le> i \<and> i < int d0 \<longrightarrow>
      direct_metric g n i =
        Inr (SubArray (NDArray (d1 # ds)
               (take (prod_list (d1 # ds)) (drop (nat i * prod_list (d1 # ds)) xs))))) \<and>
   (\<forall>n i d0 xs.
      g (''ZMWMetrics'' @ ''/'' @ n) = Some (NDArray [d0] xs) \<and> 0 \<le> i \<and> i < int d0 \<longrightarrow>
      direct_metric g n i = Inr (Scalar (xs ! nat i)))"
proof -
  note c = zmwMetric_calls_consistent [OF cache_consistent_fresh, of g cs]
  have 1: "fst (zmwMetric_calls g fresh_cache cs) = map (\<lambda>(n, i). direct_metric g n i) cs"
    using c by simp
  have 2: "distinct (reads (snd (zmwMetric_calls g fresh_cache cs)))"
    using c by (simp add: cache_consistent_def)
  have 3: "\<forall>s n i. metricCache s n \<noteq> None \<longrightarrow> snd (zmwMetric g s n i) = s"
    by (simp add: zmwMetric_hit)
  have 4: "\<forall>s n i a. metricCache s n = None \<and> g (''ZMWMetrics'' @ ''/'' @ n) = Some a \<longrightarrow>
      metricCache (snd (zmwMetric g s n i)) = (metricCache s)(n \<mapsto> a) \<and>
      reads (snd (zmwMetric g s n i)) = reads s @ [''ZMWMetrics'' @ ''/'' @ n]"
    by (simp add: zmwMetric_miss)
  have 5: "\<forall>n i d0 d1 ds xs.
      g (''ZMWMetrics'' @ ''/'' @ n) = Some (NDArray (d0 # d1 # ds) xs) \<and> 0 \<le> i \<and> i < int d0 \<longrightarrow>
      direct_metric g n i =
        Inr (SubArray (NDArray (d1 # ds)
               (take (prod_list (d1 # ds)) (drop (nat i * prod_list (d1 # ds)) xs))))"
    by (simp add: direct_metric_def index_row_def first_axis_index_def Let_def)
  have 6: "\<forall>n i d0 xs.
      g (''ZMWMetrics'' @ ''/'' @ n) = Some (NDArray [d0] xs) \<and> 0 \<le> i \<and> i < int d0 \<longrightarrow>
      direct_metric g n i = Inr (Scalar (xs ! nat i))"
    by (simp add: direct_metric_def index_entry_def first_axis_index_def)
  show ?thesis using 1 2 3 4 5 6 by (intro conjI)
qed

theorem zmwMetric_cache_witness:
  "fst (zmwMetric_calls ex_metrics fresh_cache ex_calls) =
     [Inr (Scalar 80), Inr (Scalar 90), Inr (SubArray (NDArray [4] [5, 6, 7, 8])), Inl IndexError] \<and>
   reads (snd (zmwMetric_calls ex_metrics fresh_cache ex_calls)) =
     [''ZMWMetrics/ReadScore'', ''ZMWMetrics/HQRegionSNR'']"
proof -
  note t = zmwMetric_cache [of ex_metrics ex_calls]
  have d: "map (\<lambda>(n, i). direct_metric ex_metrics n i) ex_calls =
     [Inr (Scalar 80), Inr (Scalar 90), Inr (SubArray (NDArray [4] [5, 6, 7, 8])), Inl IndexError]"
    by (simp add: ex_calls_def direct_metric_def ex_metrics_def index_row_def index_entry_def
        first_axis_index_def)
  have a: "fst (zmwMetric_calls ex_metrics fresh_cache ex_calls) =
     [Inr (Scalar 80), Inr (Scalar 90), Inr (SubArray (NDArray [4] [5, 6, 7, 8])), Inl IndexError]"
    using t d by simp
  have b: "reads (snd (zmwMetric_calls ex_metrics fresh_cache ex_calls)) =
     [''ZMWMetrics/ReadScore'', ''ZMWMetrics/HQRegionSNR'']"
    by (simp add: ex_calls_def fresh_cache_def zmwMetric_def ex_metrics_def index_row_def
        index_entry_def first_axis_index_def)
  show ?thesis using a b by simp
qed

end
